theory Spec2Isabelle
  imports Main "HOL-Library.Word"
begin

section \<open>Errors and addresses\<close>

text \<open>
  Objects that the C++ code reaches through pointers or references live in stores
  indexed by addresses. A store is a list of cells; a cell is \<open>None\<close> once it has
  been deleted. \<open>new\<close> puts the object into a fresh cell at the end.

  Template type arguments are represented by \<open>typeid(T).hash_code()\<close>, which is
  the only thing the code inspects of a type argument.
\<close>

type_synonym addr = nat
type_synonym size_t = nat
type_synonym hash_t = nat
type_synonym 'a store = "'a option list"

text \<open>
  The exceptions of the code: \<open>ki::runtime_error\<close> with its message,
  \<open>ki::cast_error\<close> with the source and destination type identities, and
  \<open>std::bad_cast\<close>, which a failing \<open>dynamic_cast\<close> to a reference type throws.
  \<open>undefined_behaviour\<close> is no exception: it marks a read through a pointer that
  refers to no live object, where the C++ program has no defined result.
\<close>

datatype error =
    runtime_error string
  | cast_error size_t size_t
  | bad_cast
  | undefined_behaviour

definition lookup :: "'a store \<Rightarrow> addr \<Rightarrow> 'a option" where
  "lookup h a = (if a < length h then h ! a else None)"

definition new :: "'a store \<Rightarrow> 'a \<Rightarrow> 'a store \<times> addr" where
  "new h x = (h @ [Some x], length h)"

definition delete :: "'a store \<Rightarrow> addr \<Rightarrow> 'a store" where
  "delete h a = (if a < length h then h[a := None] else h)"

section \<open>Type descriptors (Type.cpp, ClassType.cpp)\<close>

text \<open>
  Modelled from the spec: the enumeration \<open>Type::kind\<close>, declared in a header that
  is not among the sources; the spec lists none, class-like, primitive and enum.
\<close>

datatype kind = NONE | PRIMITIVE | CLASS | ENUM

text \<open>
  A descriptor is either an object whose dynamic class does not derive from
  \<open>IClassType\<close> (\<open>TypeObj\<close>: name, hash, kind) or an \<open>IClassType\<close> object, which has
  the member \<open>m_base_class\<close> in addition (a null pointer is \<open>None\<close>).
\<close>

datatype type_obj =
    TypeObj string hash_t kind
  | IClassTypeObj string hash_t kind "addr option"

fun get_name :: "type_obj \<Rightarrow> string" where
  "get_name (TypeObj n h k) = n"
| "get_name (IClassTypeObj n h k b) = n"

fun get_hash :: "type_obj \<Rightarrow> hash_t" where
  "get_hash (TypeObj n h k) = h"
| "get_hash (IClassTypeObj n h k b) = h"

fun get_kind :: "type_obj \<Rightarrow> kind" where
  "get_kind (TypeObj n h k) = k"
| "get_kind (IClassTypeObj n h k b) = k"

text \<open>\<open>dynamic_cast<const IClassType *>(p)\<close> on a live object: null unless the object is an \<open>IClassType\<close>.\<close>

fun is_IClassType :: "type_obj \<Rightarrow> bool" where
  "is_IClassType (TypeObj n h k) = False"
| "is_IClassType (IClassTypeObj n h k b) = True"

fun m_base_class :: "type_obj \<Rightarrow> addr option" where
  "m_base_class (TypeObj n h k) = None"
| "m_base_class (IClassTypeObj n h k b) = b"

text \<open>
  \<open>Type::Type(name, type_system)\<close>: the hash comes from the type system's hash
  calculator (\<open>calc\<close>, not among the sources, taken as a parameter); the kind is NONE.
\<close>

definition Type_ctor :: "(string \<Rightarrow> hash_t) \<Rightarrow> string \<Rightarrow> type_obj" where
  "Type_ctor calc name = TypeObj name (calc name) NONE"

text \<open>
  \<open>IClassType::IClassType(name, base_class, type_system)\<close>. The base pointer is
  dereferenced in the store \<open>h\<close> of descriptors.
\<close>

definition IClassType_ctor ::
  "(string \<Rightarrow> hash_t) \<Rightarrow> type_obj store \<Rightarrow> string \<Rightarrow> addr option \<Rightarrow> error + type_obj" where
  "IClassType_ctor calc h name base_class =
     (case base_class of
        Some b \<Rightarrow>
          (case lookup h b of
             None \<Rightarrow> Inl undefined_behaviour
           | Some t \<Rightarrow>
               if get_kind t \<noteq> CLASS
               then Inl (runtime_error ''base_class must be a class type!'')
               else if \<not> is_IClassType t
               then Inl (runtime_error ''base_class must inherit IClassType!'')
               else Inr (IClassTypeObj name (calc name) CLASS (Some b)))
      | None \<Rightarrow> Inr (IClassTypeObj name (calc name) CLASS None))"

text \<open>\<open>new IClassType(name, base_class, type_system)\<close>: construct, then place in the store.\<close>

definition new_IClassType ::
  "(string \<Rightarrow> hash_t) \<Rightarrow> type_obj store \<Rightarrow> string \<Rightarrow> addr option
     \<Rightarrow> error + (type_obj store \<times> addr)" where
  "new_IClassType calc h name base_class =
     (case IClassType_ctor calc h name base_class of
        Inl e \<Rightarrow> Inl e
      | Inr t \<Rightarrow> Inr (new h t))"

text \<open>
  \<open>IClassType::inherits(type)\<close>, called on the object at address \<open>this\<close>. The method
  follows \<open>m_base_class\<close> recursively, so on a store with a cyclic base chain it
  does not return: the result \<open>None\<close>. \<open>Some (Inl undefined_behaviour)\<close> is a call
  on an address that holds no \<open>IClassType\<close> object.
\<close>

partial_function (option) inherits ::
  "type_obj store \<Rightarrow> addr \<Rightarrow> addr \<Rightarrow> (error + bool) option" where
  "inherits h this type =
     (if type = this then Some (Inr True)
      else (case lookup h this of
              Some (IClassTypeObj n hs k (Some b)) \<Rightarrow> inherits h b type
            | Some (IClassTypeObj n hs k None) \<Rightarrow> Some (Inr False)
            | Some (TypeObj n hs k) \<Rightarrow> Some (Inl undefined_behaviour)
            | None \<Rightarrow> Some (Inl undefined_behaviour)))"

text \<open>
  \<open>assert_type_match(expected, actual, allow_inheritance)\<close>. Both arguments are
  references to descriptors in the store. \<open>dynamic_cast<const IClassType &>(actual)\<close>
  throws \<open>std::bad_cast\<close> when the object is no \<open>IClassType\<close>. The stream
  inserter prints the boolean as 1 or 0. The result is \<open>None\<close> when the call to
  \<open>inherits\<close> does not return.
\<close>

definition type_mismatch :: "type_obj \<Rightarrow> type_obj \<Rightarrow> bool \<Rightarrow> error" where
  "type_mismatch e a allow_inheritance =
     runtime_error (''Type mismatch. (expected='' @ get_name e @ '', actual='' @ get_name a @
       '', allow_inheritance='' @ (if allow_inheritance then ''1'' else ''0'') @ '')'')"

definition match_exactly :: "addr \<Rightarrow> type_obj \<Rightarrow> addr \<Rightarrow> type_obj \<Rightarrow> bool \<Rightarrow> error + unit" where
  "match_exactly expected e actual a allow_inheritance =
     (if expected = actual then Inr () else Inl (type_mismatch e a allow_inheritance))"

definition assert_type_match ::
  "type_obj store \<Rightarrow> addr \<Rightarrow> addr \<Rightarrow> bool \<Rightarrow> (error + unit) option" where
  "assert_type_match h expected actual allow_inheritance =
     (case lookup h expected of
        None \<Rightarrow> Some (Inl undefined_behaviour)
      | Some e \<Rightarrow>
          (case lookup h actual of
             None \<Rightarrow> Some (Inl undefined_behaviour)
           | Some a \<Rightarrow>
               if allow_inheritance \<and> get_kind e = CLASS
               then (if \<not> is_IClassType a then Some (Inl bad_cast)
                     else (case inherits h actual expected of
                             None \<Rightarrow> None
                           | Some (Inl err) \<Rightarrow> Some (Inl err)
                           | Some (Inr True) \<Rightarrow> Some (Inr ())
                           | Some (Inr False) \<Rightarrow>
                               Some (match_exactly expected e actual a allow_inheritance)))
               else Some (match_exactly expected e actual a allow_inheritance)))"

section \<open>Values and casters (Value.h)\<close>

text \<open>
  \<open>detail::value_caster<SrcT, DestT>\<close>: a caster object is determined by its two
  template arguments. \<open>ValueCaster\<close> is the table of one source type; \<open>m_casts\<close> maps
  the hash of a destination type to the address of a caster object.
\<close>

datatype value_caster = value_caster size_t size_t

record ValueCaster =
  m_src_type :: size_t
  m_casts :: "size_t \<rightharpoonup> addr"

text \<open>
  The members of \<open>Value\<close>. A \<open>ValueCaster\<close> is created once for a source type,
  entered in \<open>s_caster_lookup\<close> under the hash of that type, and never replaced
  or erased; so a pointer to it is represented by that hash, and \<open>None\<close> is the
  null pointer. The deallocator is \<open>value_deallocator<T>\<close>, represented by \<open>T\<close>.
\<close>

record Value =
  m_value_ptr :: addr
  m_ptr_is_owned :: bool
  m_type_hash :: size_t
  m_caster :: "size_t option"
  m_deallocator :: "size_t option"

text \<open>
  The memory the value layer works on: the static \<open>s_caster_lookup\<close> (a null pointer
  until the first call of \<open>ValueCaster::get\<close>) with the tables it owns, the store of
  caster objects, and the store of the held values, of any type \<open>'p\<close>.
\<close>

record 'p memory =
  s_caster_lookup :: "(size_t \<rightharpoonup> ValueCaster) option"
  casters :: "value_caster store"
  held :: "'p store"

definition initial_memory :: "'p memory" where
  "initial_memory = \<lparr>s_caster_lookup = None, casters = [], held = []\<rparr>"

text \<open>Dereferencing a pointer to a \<open>ValueCaster\<close>.\<close>

definition caster_at :: "'p memory \<Rightarrow> size_t \<Rightarrow> ValueCaster option" where
  "caster_at m k = (case s_caster_lookup m of None \<Rightarrow> None | Some lk \<Rightarrow> lk k)"

definition put_caster :: "'p memory \<Rightarrow> size_t \<Rightarrow> ValueCaster \<Rightarrow> 'p memory" where
  "put_caster m k c =
     (case s_caster_lookup m of
        None \<Rightarrow> m
      | Some lk \<Rightarrow> m\<lparr>s_caster_lookup := Some (lk(k \<mapsto> c))\<rparr>)"

text \<open>
  Modelled from the spec: the constructor \<open>ValueCaster(src_type)\<close>, defined in a file
  that is not among the sources. A table is created lazily for its source type and
  holds no conversion until one is declared.
\<close>

definition ValueCaster_ctor :: "size_t \<Rightarrow> ValueCaster" where
  "ValueCaster_ctor src_type = \<lparr>m_src_type = src_type, m_casts = Map.empty\<rparr>"

text \<open>\<open>ValueCaster::get<SrcT>()\<close>; the reference it returns is the second component.\<close>

definition ValueCaster_get :: "'p memory \<Rightarrow> size_t \<Rightarrow> 'p memory \<times> size_t" where
  "ValueCaster_get m SrcT =
     (let lk = (case s_caster_lookup m of None \<Rightarrow> Map.empty | Some l \<Rightarrow> l);
          lk' = (if lk SrcT = None then lk(SrcT \<mapsto> ValueCaster_ctor SrcT) else lk)
      in (m\<lparr>s_caster_lookup := Some lk'\<rparr>, SrcT))"

text \<open>
  \<open>ValueCaster::add_caster<SrcT, DestT>()\<close> on the table \<open>this\<close>: an entry for the
  destination is deleted before the new caster object takes its place.
\<close>

definition add_caster ::
  "value_caster store \<Rightarrow> ValueCaster \<Rightarrow> size_t \<Rightarrow> size_t \<Rightarrow> value_caster store \<times> ValueCaster" where
  "add_caster cs this SrcT DestT =
     (let cs1 = (case m_casts this DestT of Some old \<Rightarrow> delete cs old | None \<Rightarrow> cs);
          (cs2, a) = new cs1 (value_caster SrcT DestT)
      in (cs2, this\<lparr>m_casts := (m_casts this)(DestT \<mapsto> a)\<rparr>))"

text \<open>
  \<open>ValueCaster::declare<SrcT, DestT>()\<close>. The table that \<open>get\<close> returns exists, so
  the first branch is never taken.
\<close>

definition ValueCaster_declare :: "'p memory \<Rightarrow> size_t \<Rightarrow> size_t \<Rightarrow> 'p memory" where
  "ValueCaster_declare m SrcT DestT =
     (let (m1, k) = ValueCaster_get m SrcT
      in (case caster_at m1 k of
            None \<Rightarrow> m1
          | Some caster \<Rightarrow>
              (let (cs, caster') = add_caster (casters m1) caster SrcT DestT
               in put_caster (m1\<lparr>casters := cs\<rparr>) k caster')))"

text \<open>A sequence of declarations, as the declaration phase of a program makes them.\<close>

fun declare_all :: "'p memory \<Rightarrow> (size_t \<times> size_t) list \<Rightarrow> 'p memory" where
  "declare_all m [] = m"
| "declare_all m ((SrcT, DestT) # ds) = declare_all (ValueCaster_declare m SrcT DestT) ds"

text \<open>\<open>Value::is<T>()\<close> and \<open>Value::is_reference()\<close>.\<close>

definition Value_is :: "Value \<Rightarrow> size_t \<Rightarrow> bool" where
  "Value_is v T = (m_type_hash v = T)"

definition is_reference :: "Value \<Rightarrow> bool" where
  "is_reference v = (\<not> m_ptr_is_owned v)"

text \<open>
  Modelled from the spec: the private constructor \<open>Value(value_ptr, owned)\<close>, defined
  in a file that is not among the sources. It records the storage location and the
  ownership flag; the members that depend on the held type are set by \<open>set_type\<close>,
  which every caller invokes next.
\<close>

definition Value_ctor :: "addr \<Rightarrow> bool \<Rightarrow> Value" where
  "Value_ctor value_ptr owned =
     \<lparr>m_value_ptr = value_ptr, m_ptr_is_owned = owned, m_type_hash = 0,
      m_caster = None, m_deallocator = None\<rparr>"

text \<open>\<open>Value::set_type<T>()\<close>.\<close>

definition set_type :: "'p memory \<Rightarrow> Value \<Rightarrow> size_t \<Rightarrow> 'p memory \<times> Value" where
  "set_type m v T =
     (let (m1, k) = ValueCaster_get m T
      in (m1, v\<lparr>m_type_hash := T, m_caster := Some k, m_deallocator := Some T\<rparr>))"

text \<open>\<open>Value::make_value<T>(value)\<close>: the value is copied to new storage.\<close>

definition make_value :: "'p memory \<Rightarrow> size_t \<Rightarrow> 'p \<Rightarrow> 'p memory \<times> Value" where
  "make_value m T x =
     (let (hs, ptr) = new (held m) x;
          val = Value_ctor ptr True
      in set_type (m\<lparr>held := hs\<rparr>) val T)"

text \<open>\<open>Value::make_reference<T>(value)\<close>: \<open>ptr\<close> is the address of the argument.\<close>

definition make_reference :: "'p memory \<Rightarrow> size_t \<Rightarrow> addr \<Rightarrow> 'p memory \<times> Value" where
  "make_reference m T ptr = set_type m (Value_ctor ptr False) T"

text \<open>
  \<open>Value::get<T>()\<close>, in its two overloads. The result is the reference to the held
  storage or the exception; the non-const overload is given with the state of the
  object after the call.
\<close>

definition Value_get_const :: "Value \<Rightarrow> size_t \<Rightarrow> error + addr" where
  "Value_get_const v T =
     (if \<not> Value_is v T then Inl (runtime_error ''Invalid call to Value::get<T>.'')
      else Inr (m_value_ptr v))"

definition Value_get :: "Value \<Rightarrow> size_t \<Rightarrow> (error + addr) \<times> Value" where
  "Value_get v T =
     (if \<not> Value_is v T then (Inl (runtime_error ''Invalid call to Value::get<T>.''), v)
      else (Inr (m_value_ptr v), v))"

text \<open>\<open>Value::release<T>()\<close>, with the state of the object after the call.\<close>

definition Value_release :: "Value \<Rightarrow> size_t \<Rightarrow> (error + addr) \<times> Value" where
  "Value_release v T =
     (if is_reference v
      then (Inl (runtime_error ''Cannot release ownership from a reference Value.''), v)
      else if \<not> Value_is v T
      then (Inl (runtime_error ''Invalid call to Value::get<T>.''), v)
      else (Inr (m_value_ptr v), v\<lparr>m_ptr_is_owned := False\<rparr>))"

text \<open>
  \<open>value_caster_impl<SrcT, DestT>::cast(value)\<close>. The conversion itself
  (\<open>cast_value\<close>: a \<open>static_cast\<close> unless a specialisation says otherwise) is chosen
  at compile time from the two types; it is the parameter \<open>conv\<close>.
\<close>

fun value_caster_cast ::
  "(size_t \<Rightarrow> size_t \<Rightarrow> 'p \<Rightarrow> 'p) \<Rightarrow> 'p memory \<Rightarrow> value_caster \<Rightarrow> Value
     \<Rightarrow> error + ('p memory \<times> Value)" where
  "value_caster_cast conv m (value_caster SrcT DestT) v =
     (case Value_get_const v SrcT of
        Inl e \<Rightarrow> Inl e
      | Inr ptr \<Rightarrow>
          (case lookup (held m) ptr of
             None \<Rightarrow> Inl undefined_behaviour
           | Some x \<Rightarrow> Inr (make_value m DestT (conv SrcT DestT x))))"

text \<open>\<open>ValueCaster::cast_value<DestT>(value)\<close> on the table \<open>this\<close>.\<close>

definition cast_value ::
  "(size_t \<Rightarrow> size_t \<Rightarrow> 'p \<Rightarrow> 'p) \<Rightarrow> 'p memory \<Rightarrow> ValueCaster \<Rightarrow> size_t \<Rightarrow> Value
     \<Rightarrow> error + ('p memory \<times> Value)" where
  "cast_value conv m this DestT v =
     (case m_casts this DestT of
        Some it \<Rightarrow>
          (case lookup (casters m) it of
             None \<Rightarrow> Inl undefined_behaviour
           | Some c \<Rightarrow> value_caster_cast conv m c v)
      | None \<Rightarrow> Inl (cast_error (m_src_type this) DestT))"

text \<open>\<open>ValueCaster::cast<DestT>(src_type, value)\<close>: \<open>s_caster_lookup\<close> is dereferenced unchecked.\<close>

definition ValueCaster_cast_by_type ::
  "(size_t \<Rightarrow> size_t \<Rightarrow> 'p \<Rightarrow> 'p) \<Rightarrow> 'p memory \<Rightarrow> size_t \<Rightarrow> size_t \<Rightarrow> Value
     \<Rightarrow> error + ('p memory \<times> Value)" where
  "ValueCaster_cast_by_type conv m src_type DestT v =
     (case s_caster_lookup m of
        None \<Rightarrow> Inl undefined_behaviour
      | Some lk \<Rightarrow>
          (case lk src_type of
             Some it \<Rightarrow> cast_value conv m it DestT v
           | None \<Rightarrow> Inl (cast_error src_type DestT)))"

text \<open>\<open>ValueCaster::cast<SrcT, DestT>(value)\<close>.\<close>

definition ValueCaster_cast ::
  "(size_t \<Rightarrow> size_t \<Rightarrow> 'p \<Rightarrow> 'p) \<Rightarrow> 'p memory \<Rightarrow> size_t \<Rightarrow> size_t \<Rightarrow> Value
     \<Rightarrow> error + ('p memory \<times> Value)" where
  "ValueCaster_cast conv m SrcT DestT v =
     (let m1 = ValueCaster_declare m SrcT DestT;
          (m2, k) = ValueCaster_get m1 SrcT
      in (case caster_at m2 k of
            None \<Rightarrow> Inl undefined_behaviour
          | Some caster \<Rightarrow> cast_value conv m2 caster DestT v))"

text \<open>\<open>Value::as<T>()\<close> and \<open>Value::dereference<T>()\<close>.\<close>

definition Value_as ::
  "(size_t \<Rightarrow> size_t \<Rightarrow> 'p \<Rightarrow> 'p) \<Rightarrow> 'p memory \<Rightarrow> Value \<Rightarrow> size_t
     \<Rightarrow> error + ('p memory \<times> Value)" where
  "Value_as conv m v T =
     (if \<not> Value_is v T
      then (case m_caster v of
              None \<Rightarrow> Inl undefined_behaviour
            | Some k \<Rightarrow>
                (case caster_at m k of
                   None \<Rightarrow> Inl undefined_behaviour
                 | Some caster \<Rightarrow> cast_value conv m caster T v))
      else (case lookup (held m) (m_value_ptr v) of
              None \<Rightarrow> Inl undefined_behaviour
            | Some x \<Rightarrow> Inr (make_value m T x)))"

definition dereference :: "'p memory \<Rightarrow> Value \<Rightarrow> size_t \<Rightarrow> error + ('p memory \<times> Value)" where
  "dereference m v T =
     (if \<not> Value_is v T then Inl (runtime_error ''Invalid call to Value::dereference<T>.'')
      else (case lookup (held m) (m_value_ptr v) of
              None \<Rightarrow> Inl undefined_behaviour
            | Some x \<Rightarrow> Inr (make_value m T x)))"

section \<open>Class types on the wire (ClassType.cpp)\<close>

text \<open>
  Modelled from the spec: \<open>PropertyClass\<close> and its property list, declared in headers
  that are not among the sources. An object exposes the ordered collection of its
  properties, in declaration order; the iterators of the list walk it from the
  first to the last.
\<close>

record 'prop PropertyClass =
  get_properties :: "'prop list"

text \<open>
  The loop of \<open>IClassType::write_to\<close>: \<open>it\<close> is the position of the iterator, which
  starts at \<open>begin()\<close> and stops at \<open>end()\<close>. \<open>write_value_to\<close> is the virtual
  method of the property, which the sources do not define; an exception that
  it throws ends the loop.
\<close>

function write_to_loop ::
  "('prop \<Rightarrow> 's \<Rightarrow> error + 's) \<Rightarrow> 'prop list \<Rightarrow> nat \<Rightarrow> 's \<Rightarrow> error + 's" where
  "write_to_loop write_value_to properties it stream =
     (if it < length properties
      then (case write_value_to (properties ! it) stream of
              Inl e \<Rightarrow> Inl e
            | Inr stream' \<Rightarrow> write_to_loop write_value_to properties (it + 1) stream')
      else Inr stream)"
  by pat_completeness auto
termination
  by (relation "measure (\<lambda>(w, ps, it, s). length ps - it)") auto

text \<open>
  \<open>IClassType::write_to(stream, value)\<close>. \<open>get_object_from_value\<close> is pure virtual
  in the sources and a parameter here.
\<close>

definition IClassType_write_to ::
  "('v \<Rightarrow> 'prop PropertyClass) \<Rightarrow> ('prop \<Rightarrow> 's \<Rightarrow> error + 's) \<Rightarrow> 's \<Rightarrow> 'v \<Rightarrow> error + 's" where
  "IClassType_write_to get_object_from_value write_value_to stream v =
     (let object = get_object_from_value v;
          properties = get_properties object
      in write_to_loop write_value_to properties 0 stream)"

text \<open>
  The loop of \<open>IClassType::read_from\<close>. \<open>read_value_from\<close> changes the property it
  is called on, in place, and the stream.
\<close>

function read_from_loop ::
  "('prop \<Rightarrow> 's \<Rightarrow> error + ('prop \<times> 's)) \<Rightarrow> 'prop list \<Rightarrow> nat \<Rightarrow> 's
     \<Rightarrow> error + ('prop list \<times> 's)" where
  "read_from_loop read_value_from properties it stream =
     (if it < length properties
      then (case read_value_from (properties ! it) stream of
              Inl e \<Rightarrow> Inl e
            | Inr (p', stream') \<Rightarrow>
                read_from_loop read_value_from (properties[it := p']) (it + 1) stream')
      else Inr (properties, stream))"
  by pat_completeness auto
termination
  by (relation "measure (\<lambda>(r, ps, it, s). length ps - it)") auto

definition IClassType_read_from ::
  "('v \<Rightarrow> 'prop PropertyClass) \<Rightarrow> ('prop \<Rightarrow> 's \<Rightarrow> error + ('prop \<times> 's)) \<Rightarrow> 's \<Rightarrow> 'v
     \<Rightarrow> error + ('prop PropertyClass \<times> 's)" where
  "IClassType_read_from get_object_from_value read_value_from stream v =
     (let object = get_object_from_value v;
          properties = get_properties object
      in (case read_from_loop read_value_from properties 0 stream of
            Inl e \<Rightarrow> Inl e
          | Inr (properties', stream') \<Rightarrow>
              Inr (object\<lparr>get_properties := properties'\<rparr>, stream')))"

section \<open>Primitive types on the wire (PrimitiveType.h)\<close>

text \<open>
  The codec of an integral primitive type \<open>ValueT\<close>. The bit stream is an external
  capability and \<open>bitsizeof<ValueT>::value\<close> is a constant of a header that is not
  among the sources: \<open>stream_write\<close> is \<open>BitStream::write<ValueT>(value, bits)\<close>,
  \<open>stream_read\<close> is \<open>BitStream::read<ValueT>(bits)\<close>, which returns the value and
  leaves the stream advanced, and \<open>bitsizeof\<close> is the width of the type; all three are
  parameters.
\<close>

definition PrimitiveTypeWriter_write_to ::
  "('s \<Rightarrow> 'v \<Rightarrow> nat \<Rightarrow> 's) \<Rightarrow> nat \<Rightarrow> 's \<Rightarrow> 'v \<Rightarrow> 's" where
  "PrimitiveTypeWriter_write_to stream_write bitsizeof stream v = stream_write stream v bitsizeof"

definition PrimitiveTypeReader_read_from ::
  "('s \<Rightarrow> nat \<Rightarrow> 'v \<times> 's) \<Rightarrow> nat \<Rightarrow> 's \<Rightarrow> 'v \<times> 's" where
  "PrimitiveTypeReader_read_from stream_read bitsizeof stream = stream_read stream bitsizeof"

section \<open>Specification-level notions\<close>

subsection \<open>Inheritance\<close>

text \<open>
  The base link of the descriptors of a store, and the stores that construction
  yields: a base pointer refers to an \<open>IClassType\<close> object at a smaller address,
  since the base is constructed before the class that names it and
  \<open>m_base_class\<close> is never assigned again.
\<close>

definition base_rel :: "type_obj store \<Rightarrow> (addr \<times> addr) set" where
  "base_rel h = {(c, b). \<exists>t. lookup h c = Some t \<and> m_base_class t = Some b}"

definition wf_types :: "type_obj store \<Rightarrow> bool" where
  "wf_types h =
     list_all
       (\<lambda>a. case lookup h a of
               None \<Rightarrow> True
             | Some t \<Rightarrow>
                 (case m_base_class t of
                    None \<Rightarrow> True
                  | Some b \<Rightarrow>
                      b < a \<and> (case lookup h b of None \<Rightarrow> False | Some t' \<Rightarrow> is_IClassType t')))
       [0..<length h]"

text \<open>A store with a class X, a class Y derived from X, and a primitive type.\<close>

definition example_types :: "type_obj store" where
  "example_types =
     [Some (IClassTypeObj ''X'' 1 CLASS None),
      Some (IClassTypeObj ''Y'' 1 CLASS (Some 0)),
      Some (TypeObj ''int'' 3 PRIMITIVE)]"

subsection \<open>The caster registry\<close>

text \<open>
  The table of a source type, empty while none has been created. The registry
  invariant: the live caster objects are exactly those that a table entry points
  to, each of the type \<open>value_caster<SrcT, DestT>\<close> of the entry (so there
  is at most one per pair), and a table records the source type it is entered under.
\<close>

definition table_of :: "'p memory \<Rightarrow> size_t \<Rightarrow> ValueCaster" where
  "table_of m SrcT = (case caster_at m SrcT of Some c \<Rightarrow> c | None \<Rightarrow> ValueCaster_ctor SrcT)"

definition freed :: "'p memory \<Rightarrow> size_t \<Rightarrow> size_t \<Rightarrow> value_caster store" where
  "freed m SrcT DestT =
     (case m_casts (table_of m SrcT) DestT of
        Some old \<Rightarrow> delete (casters m) old
      | None \<Rightarrow> casters m)"

definition casters_inv :: "'p memory \<Rightarrow> bool" where
  "casters_inv m =
     (\<forall>a SrcT DestT.
        lookup (casters m) a = Some (value_caster SrcT DestT) \<longleftrightarrow>
        (\<exists>c. caster_at m SrcT = Some c \<and> m_casts c DestT = Some a))"

definition tables_inv :: "'p memory \<Rightarrow> bool" where
  "tables_inv m = (\<forall>k c. caster_at m k = Some c \<longrightarrow> m_src_type c = k)"

definition registry_inv :: "'p memory \<Rightarrow> bool" where
  "registry_inv m = (casters_inv m \<and> tables_inv m)"

text \<open>
  A value as \<open>make_value\<close> and \<open>make_reference\<close> build it: its caster is the table
  of its own type, and its storage is live.
\<close>

definition valid_value :: "'p memory \<Rightarrow> Value \<Rightarrow> bool" where
  "valid_value m v =
     (m_caster v = Some (m_type_hash v) \<and> caster_at m (m_type_hash v) \<noteq> None \<and>
      lookup (held m) (m_value_ptr v) \<noteq> None)"

text \<open>
  A memory in which a caster from type 1 to type 2 has been declared and an owning
  value of type 1 has been made, and that value.
\<close>

definition example_memory :: "nat memory" where
  "example_memory = fst (make_value (declare_all initial_memory [(1, 2)]) 1 42)"

definition example_value :: Value where
  "example_value = snd (make_value (declare_all (initial_memory :: nat memory) [(1, 2)]) 1 42)"

subsection \<open>Properties in declared order\<close>

text \<open>
  The spec's words for the two loops: each declared property is written, or read,
  in declared order, and nothing else touches the stream. The \<open>log\<close> functions are
  property methods that record the property they are called on.
\<close>

fun write_in_order :: "('prop \<Rightarrow> 's \<Rightarrow> error + 's) \<Rightarrow> 'prop list \<Rightarrow> 's \<Rightarrow> error + 's" where
  "write_in_order w [] s = Inr s"
| "write_in_order w (p # ps) s =
     (case w p s of Inl e \<Rightarrow> Inl e | Inr s' \<Rightarrow> write_in_order w ps s')"

fun read_in_order ::
  "('prop \<Rightarrow> 's \<Rightarrow> error + ('prop \<times> 's)) \<Rightarrow> 'prop list \<Rightarrow> 's \<Rightarrow> error + ('prop list \<times> 's)" where
  "read_in_order r [] s = Inr ([], s)"
| "read_in_order r (p # ps) s =
     (case r p s of
        Inl e \<Rightarrow> Inl e
      | Inr (p', s') \<Rightarrow>
          (case read_in_order r ps s' of
             Inl e \<Rightarrow> Inl e
           | Inr (ps', s'') \<Rightarrow> Inr (p' # ps', s'')))"

definition log_write :: "'prop \<Rightarrow> 'prop list \<Rightarrow> error + 'prop list" where
  "log_write p visited = Inr (visited @ [p])"

definition log_read :: "'prop \<Rightarrow> 'prop list \<Rightarrow> error + ('prop \<times> 'prop list)" where
  "log_read p visited = Inr (p, visited @ [p])"

subsection \<open>The contract of the bit stream\<close>

text \<open>
  The contract of the spec's section 6 at one bit width: reading that many bits at
  the place where \<open>write\<close> put a value returns the value. \<open>rewind s s'\<close> is the
  stream \<open>s'\<close> positioned where \<open>s\<close> stands.
\<close>

definition stream_contract ::
  "('s \<Rightarrow> 'v \<Rightarrow> nat \<Rightarrow> 's) \<Rightarrow> ('s \<Rightarrow> nat \<Rightarrow> 'v \<times> 's) \<Rightarrow> ('s \<Rightarrow> 's \<Rightarrow> 's) \<Rightarrow> nat \<Rightarrow> bool" where
  "stream_contract stream_write stream_read rewind bit_width =
     (\<forall>s v. fst (stream_read (rewind s (stream_write s v bit_width)) bit_width) = v)"

text \<open>
  Modelled from the spec: a bit-level stream, which the sources do not contain. It
  is a queue of bits, the least significant bit of a value first; it shows that the
  contract can be met.
\<close>

definition bits_write :: "bool list \<Rightarrow> 'a::len word \<Rightarrow> nat \<Rightarrow> bool list" where
  "bits_write s v w = s @ map (bit v) [0..<w]"

definition bits_read :: "bool list \<Rightarrow> nat \<Rightarrow> 'a::len word \<times> bool list" where
  "bits_read s w = (horner_sum of_bool 2 (take w s), drop w s)"

definition bits_rewind :: "bool list \<Rightarrow> bool list \<Rightarrow> bool list" where
  "bits_rewind s s' = drop (length s) s'"

section \<open>Stores\<close>

lemma length_delete [simp]: "length (delete cs a) = length cs"
  by (simp add: delete_def)

lemma lookup_delete: "lookup (delete cs a) b = (if b = a then None else lookup cs b)"
  by (auto simp: lookup_def delete_def)

lemma lookup_append_new:
  "lookup (cs @ [Some x]) b = (if b = length cs then Some x else lookup cs b)"
  by (auto simp: lookup_def nth_append)

lemma lookup_Some_less: "lookup cs a = Some x \<Longrightarrow> a < length cs"
  by (auto simp: lookup_def split: if_splits)

section \<open>Inheritance along the base chain\<close>

lemma wf_typesD:
  assumes "wf_types h" "lookup h a = Some t" "m_base_class t = Some b"
  shows "b < a \<and> (\<exists>t'. lookup h b = Some t' \<and> is_IClassType t')"
proof -
  from assms(2) have "a < length h" by (auto simp: lookup_def split: if_splits)
  with assms(1) have "case lookup h a of
                     None \<Rightarrow> True
                   | Some t \<Rightarrow>
                       (case m_base_class t of
                          None \<Rightarrow> True
                        | Some b \<Rightarrow> b < a \<and> (case lookup h b of None \<Rightarrow> False | Some t' \<Rightarrow> is_IClassType t'))"
    by (simp add: wf_types_def list_all_iff)
  with assms(2,3) show ?thesis by (auto split: option.splits)
qed

lemma base_rel_step: "(c, b) \<in> base_rel h \<longleftrightarrow> (\<exists>t. lookup h c = Some t \<and> m_base_class t = Some b)"
  by (simp add: base_rel_def)

lemma base_chain_le:
  assumes "wf_types h" "(c, a) \<in> (base_rel h)\<^sup>*"
  shows "a \<le> c"
  using assms(2)
proof (induction rule: rtrancl_induct)
  case base
  show ?case by simp
next
  case (step y z)
  from step(2) obtain t where "lookup h y = Some t" "m_base_class t = Some z"
    by (auto simp: base_rel_step)
  with wf_typesD [OF assms(1)] have "z < y" by blast
  with step(3) show ?case by simp
qed

lemma inherits_closure:
  assumes "wf_types h"
  shows "lookup h c = Some t \<Longrightarrow> is_IClassType t \<Longrightarrow>
         inherits h c a = Some (Inr ((c, a) \<in> (base_rel h)\<^sup>*))"
proof (induction c arbitrary: t rule: less_induct)
  case (less c)
  show ?case
  proof (cases "a = c")
    case True
    then show ?thesis by (subst inherits.simps) simp
  next
    case False
    from less(3) obtain n hs k bo where t: "t = IClassTypeObj n hs k bo"
      by (cases t) auto
    show ?thesis
    proof (cases bo)
      case None
      have "(c, a) \<notin> (base_rel h)\<^sup>*"
      proof
        assume "(c, a) \<in> (base_rel h)\<^sup>*"
        then show False
        proof (cases rule: converse_rtranclE)
          case base
          with False show False by simp
        next
          case (step y)
          with less(2) t None show False by (simp add: base_rel_step)
        qed
      qed
      then show ?thesis using False less(2) t None
        by (subst inherits.simps) simp
    next
      case (Some b)
      from wf_typesD [OF assms less(2)] t Some
      obtain t' where b: "b < c" "lookup h b = Some t'" "is_IClassType t'" by auto
      have ih: "inherits h b a = Some (Inr ((b, a) \<in> (base_rel h)\<^sup>*))"
        by (rule less.IH [OF b])
      have cb: "(c, b) \<in> base_rel h" using less(2) t Some by (auto simp: base_rel_step)
      have "(c, a) \<in> (base_rel h)\<^sup>* \<longleftrightarrow> (b, a) \<in> (base_rel h)\<^sup>*"
      proof
        assume "(c, a) \<in> (base_rel h)\<^sup>*"
        then show "(b, a) \<in> (base_rel h)\<^sup>*"
        proof (cases rule: converse_rtranclE)
          case base
          with False show ?thesis by simp
        next
          case (step y)
          from step(1) less(2) t Some have "y = b" by (simp add: base_rel_step)
          with step(2) show ?thesis by simp
        qed
      next
        assume "(b, a) \<in> (base_rel h)\<^sup>*"
        with cb show "(c, a) \<in> (base_rel h)\<^sup>*" by (rule converse_rtrancl_into_rtrancl)
      qed
      then show ?thesis using False less(2) t Some ih
        by (subst inherits.simps) simp
    qed
  qed
qed

lemma wf_types_iff:
  "wf_types h \<longleftrightarrow>
     (\<forall>a t b. lookup h a = Some t \<and> m_base_class t = Some b \<longrightarrow>
        b < a \<and> (\<exists>t'. lookup h b = Some t' \<and> is_IClassType t'))"
proof
  assume "wf_types h"
  then show "\<forall>a t b. lookup h a = Some t \<and> m_base_class t = Some b \<longrightarrow>
        b < a \<and> (\<exists>t'. lookup h b = Some t' \<and> is_IClassType t')"
    by (blast dest: wf_typesD)
next
  assume r: "\<forall>a t b. lookup h a = Some t \<and> m_base_class t = Some b \<longrightarrow>
        b < a \<and> (\<exists>t'. lookup h b = Some t' \<and> is_IClassType t')"
  show "wf_types h"
    unfolding wf_types_def list_all_iff
  proof
    fix a assume "a \<in> set [0..<length h]"
    show "case lookup h a of None \<Rightarrow> True
          | Some t \<Rightarrow> (case m_base_class t of None \<Rightarrow> True
             | Some b \<Rightarrow> b < a \<and> (case lookup h b of None \<Rightarrow> False | Some t' \<Rightarrow> is_IClassType t'))"
    proof (cases "lookup h a")
      case None
      then show ?thesis by simp
    next
      case (Some t)
      show ?thesis
      proof (cases "m_base_class t")
        case None
        with Some show ?thesis by simp
      next
        case b: (Some b)
        with r Some have "b < a \<and> (\<exists>t'. lookup h b = Some t' \<and> is_IClassType t')" by blast
        with Some b show ?thesis by auto
      qed
    qed
  qed
qed

lemma new_IClassType_wf:
  assumes "wf_types h" "new_IClassType calc h name base_class = Inr (h', a)"
  shows "wf_types h' \<and> a = length h \<and>
         lookup h' a = Some (IClassTypeObj name (calc name) CLASS base_class) \<and>
         (\<forall>b. b < length h \<longrightarrow> lookup h' b = lookup h b)"
proof -
  let ?t = "IClassTypeObj name (calc name) CLASS base_class"
  from assms(2) have c: "IClassType_ctor calc h name base_class = Inr ?t"
    and h': "h' = h @ [Some ?t]" and a: "a = length h"
    by (auto simp: new_IClassType_def new_def IClassType_ctor_def split: sum.splits option.splits if_splits)
  have base: "\<exists>t'. lookup h b = Some t' \<and> is_IClassType t'" if "base_class = Some b" for b
    using c that by (auto simp: IClassType_ctor_def split: option.splits if_splits)
  have "wf_types h'"
    unfolding wf_types_iff h'
  proof (intro allI impI, elim conjE)
    fix x t b
    assume l: "lookup (h @ [Some ?t]) x = Some t" and m: "m_base_class t = Some b"
    show "b < x \<and> (\<exists>t'. lookup (h @ [Some ?t]) b = Some t' \<and> is_IClassType t')"
    proof (cases "x = length h")
      case True
      with l m have "base_class = Some b" by (auto simp: lookup_append_new)
      from base [OF this] obtain t' where t': "lookup h b = Some t'" "is_IClassType t'" by blast
      from t'(1) have "b < length h" by (rule lookup_Some_less)
      with True t' show ?thesis by (simp add: lookup_append_new)
    next
      case False
      with l have "lookup h x = Some t" by (simp add: lookup_append_new)
      with assms(1) m obtain t' where "b < x" "lookup h b = Some t'" "is_IClassType t'"
        by (blast dest: wf_typesD)
      moreover from this have "b < length h" by (blast dest: lookup_Some_less)
      ultimately show ?thesis by (simp add: lookup_append_new)
    qed
  qed
  then show ?thesis by (simp add: h' a lookup_append_new)
qed

lemma example_types_built:
  "new_IClassType length [] ''X'' None = Inr ([Some (IClassTypeObj ''X'' 1 CLASS None)], 0) \<and>
   new_IClassType length [Some (IClassTypeObj ''X'' 1 CLASS None)] ''Y'' (Some 0) =
     Inr ([Some (IClassTypeObj ''X'' 1 CLASS None), Some (IClassTypeObj ''Y'' 1 CLASS (Some 0))], 1)"
  by (simp add: new_IClassType_def IClassType_ctor_def new_def lookup_def)

text \<open>
  C1. On a store as construction yields it, \<open>inherits\<close> called on a class type \<open>c\<close>
  returns, and its result for \<open>a\<close> is true exactly when \<open>a\<close> is \<open>c\<close> itself or is
  reached from \<open>c\<close> along the base links: true for the same descriptor and for
  every ancestor, false once the chain is exhausted. In particular, when the base
  of \<open>c\<close> is \<open>x\<close>, \<open>inherits(c, x)\<close> is true and \<open>inherits(x, c)\<close> is false.
\<close>

theorem inherits_follows_base_chain:
  assumes "wf_types h" "lookup h c = Some t" "is_IClassType t"
  shows "inherits h c a = Some (Inr ((c, a) \<in> (base_rel h)\<^sup>*)) \<and>
         (\<forall>x. m_base_class t = Some x \<longrightarrow>
            inherits h c x = Some (Inr True) \<and> inherits h x c = Some (Inr False))"
proof (intro conjI allI impI)
  show "inherits h c a = Some (Inr ((c, a) \<in> (base_rel h)\<^sup>*))"
    by (rule inherits_closure [OF assms])
next
  fix x assume x: "m_base_class t = Some x"
  from wf_typesD [OF assms(1,2) x]
  obtain t' where b: "x < c" "lookup h x = Some t'" "is_IClassType t'" by auto
  have "(c, x) \<in> base_rel h" using assms(2) x by (auto simp: base_rel_step)
  then have "(c, x) \<in> (base_rel h)\<^sup>*" by blast
  then show "inherits h c x = Some (Inr True)"
    by (simp add: inherits_closure [OF assms])
  have "(x, c) \<notin> (base_rel h)\<^sup>*"
    using base_chain_le [OF assms(1), of x c] b(1) by auto
  then show "inherits h x c = Some (Inr False)"
    by (simp add: inherits_closure [OF assms(1) b(2,3)])
qed

theorem inherits_follows_base_chain_witness:
  "wf_types example_types \<and> lookup example_types 1 = Some (IClassTypeObj ''Y'' 1 CLASS (Some 0)) \<and>
   is_IClassType (IClassTypeObj ''Y'' 1 CLASS (Some 0)) \<and>
   inherits example_types 1 1 = Some (Inr True) \<and>
   inherits example_types 1 0 = Some (Inr True) \<and>
   inherits example_types 0 1 = Some (Inr False)"
proof -
  have w: "wf_types example_types" by code_simp
  have l: "lookup example_types 1 = Some (IClassTypeObj ''Y'' 1 CLASS (Some 0))"
    by (simp add: example_types_def lookup_def)
  have i: "is_IClassType (IClassTypeObj ''Y'' 1 CLASS (Some 0))" by simp
  note c = inherits_follows_base_chain [OF w l i, of 1]
  have a1: "inherits example_types 1 1 = Some (Inr True)"
    using c [THEN conjunct1] by simp
  have a2: "inherits example_types 1 0 = Some (Inr True) \<and>
            inherits example_types 0 1 = Some (Inr False)"
    using c [THEN conjunct2] by simp
  from w l i a1 a2 show ?thesis by blast
qed

text \<open>
  What \<open>assert_type_match\<close> does on live descriptors of such a store: the three
  outcomes that its comments name, and \<open>std::bad_cast\<close> before them.
\<close>

lemma assert_type_match_cases:
  assumes "wf_types h" "lookup h expected = Some e" "lookup h actual = Some a"
  shows "assert_type_match h expected actual allow_inheritance =
     Some (if allow_inheritance \<and> get_kind e = CLASS \<and> \<not> is_IClassType a then Inl bad_cast
           else if actual = expected \<or>
                   (allow_inheritance \<and> get_kind e = CLASS \<and> (actual, expected) \<in> (base_rel h)\<^sup>*)
           then Inr ()
           else Inl (type_mismatch e a allow_inheritance))"
proof (cases "allow_inheritance \<and> get_kind e = CLASS")
  case False
  with assms(2,3) show ?thesis
    by (auto simp: assert_type_match_def match_exactly_def)
next
  case True
  show ?thesis
  proof (cases "is_IClassType a")
    case False
    with True assms(2,3) show ?thesis by (simp add: assert_type_match_def)
  next
    case ic: True
    note i = inherits_closure [OF assms(1,3) ic, of expected]
    show ?thesis
    proof (cases "(actual, expected) \<in> (base_rel h)\<^sup>*")
      case True
      with \<open>allow_inheritance \<and> get_kind e = CLASS\<close> ic assms(2,3) i show ?thesis
        by (simp add: assert_type_match_def)
    next
      case False
      then have "actual \<noteq> expected" by auto
      with False \<open>allow_inheritance \<and> get_kind e = CLASS\<close> ic assms(2,3) i show ?thesis
        by (simp add: assert_type_match_def match_exactly_def)
    qed
  qed
qed

text \<open>
  C2. With inheritance allowed and a class-like expected type, an actual type that
  is not an \<open>IClassType\<close> makes \<open>assert_type_match\<close> throw \<open>std::bad_cast\<close> from
  the \<open>dynamic_cast\<close> to a reference; it does not raise the type mismatch error
  that names both types, which the same pair raises when inheritance is not allowed.
\<close>

theorem assert_type_match_throws_bad_cast:
  "assert_type_match example_types 0 2 True = Some (Inl bad_cast) \<and>
   assert_type_match example_types 0 2 True \<noteq>
     Some (Inl (type_mismatch (IClassTypeObj ''X'' 1 CLASS None) (TypeObj ''int'' 3 PRIMITIVE) True)) \<and>
   assert_type_match example_types 0 2 False =
     Some (Inl (runtime_error ''Type mismatch. (expected=X, actual=int, allow_inheritance=0)''))"
  by (simp add: assert_type_match_def example_types_def lookup_def match_exactly_def
      type_mismatch_def)

text \<open>
  C8. The constructor of a class type fails with a runtime error when the base it is
  given is not of kind CLASS or is not an \<open>IClassType\<close>; when it succeeds with a
  base, the base is a live \<open>IClassType\<close> of kind CLASS and becomes \<open>m_base_class\<close>;
  without a base the new descriptor has none.
\<close>

theorem class_ctor_checks_base:
  "(\<forall>b t. lookup h b = Some t \<and> (get_kind t \<noteq> CLASS \<or> \<not> is_IClassType t) \<longrightarrow>
      (\<exists>msg. IClassType_ctor calc h name (Some b) = Inl (runtime_error msg))) \<and>
   (\<forall>b obj. IClassType_ctor calc h name (Some b) = Inr obj \<longrightarrow>
      obj = IClassTypeObj name (calc name) CLASS (Some b) \<and>
      (\<exists>t. lookup h b = Some t \<and> get_kind t = CLASS \<and> is_IClassType t)) \<and>
   IClassType_ctor calc h name None = Inr (IClassTypeObj name (calc name) CLASS None)"
  by (auto simp: IClassType_ctor_def split: option.splits if_splits)

theorem class_ctor_checks_base_witness:
  "(\<exists>msg. IClassType_ctor length example_types ''Z'' (Some 2) = Inl (runtime_error msg)) \<and>
   IClassType_ctor length example_types ''Z'' (Some 1) = Inr (IClassTypeObj ''Z'' 1 CLASS (Some 1)) \<and>
   (\<exists>t. lookup example_types 1 = Some t \<and> get_kind t = CLASS \<and> is_IClassType t) \<and>
   IClassType_ctor length example_types ''Z'' None = Inr (IClassTypeObj ''Z'' 1 CLASS None)"
proof -
  note c = class_ctor_checks_base [of example_types length "''Z''"]
  have l2: "lookup example_types 2 = Some (TypeObj ''int'' 3 PRIMITIVE)"
    by (simp add: example_types_def lookup_def)
  have a1: "\<exists>msg. IClassType_ctor length example_types ''Z'' (Some 2) = Inl (runtime_error msg)"
    using c [THEN conjunct1] l2 by fastforce
  have ok: "IClassType_ctor length example_types ''Z'' (Some 1) =
      Inr (IClassTypeObj ''Z'' 1 CLASS (Some 1))"
    by (simp add: IClassType_ctor_def example_types_def lookup_def)
  have a2: "\<exists>t. lookup example_types 1 = Some t \<and> get_kind t = CLASS \<and> is_IClassType t"
    using c [THEN conjunct2, THEN conjunct1] ok by blast
  have a3: "IClassType_ctor length example_types ''Z'' None = Inr (IClassTypeObj ''Z'' 1 CLASS None)"
    using c [THEN conjunct2, THEN conjunct2] by simp
  from a1 ok a2 a3 show ?thesis by blast
qed

section \<open>The caster registry\<close>

lemma get_caster_at:
  "caster_at (fst (ValueCaster_get m SrcT)) k =
     (if k = SrcT then Some (table_of m SrcT) else caster_at m k)"
  by (auto simp: ValueCaster_get_def caster_at_def table_of_def Let_def split: option.splits)

lemma get_frame:
  "casters (fst (ValueCaster_get m SrcT)) = casters m"
  "held (fst (ValueCaster_get m SrcT)) = held m"
  "snd (ValueCaster_get m SrcT) = SrcT"
  "s_caster_lookup (fst (ValueCaster_get m SrcT)) \<noteq> None"
  by (simp_all add: ValueCaster_get_def Let_def)

lemma put_caster_at:
  "s_caster_lookup m \<noteq> None \<Longrightarrow>
   caster_at (put_caster m k c) k' = (if k' = k then Some c else caster_at m k')"
  by (auto simp: put_caster_def caster_at_def split: option.splits)

lemma caster_at_casters [simp]: "caster_at (m\<lparr>casters := cs\<rparr>) k = caster_at m k"
  by (simp add: caster_at_def)

lemma caster_at_held [simp]: "caster_at (m\<lparr>held := hs\<rparr>) k = caster_at m k"
  by (simp add: caster_at_def)

lemma put_frame:
  "casters (put_caster m k c) = casters m"
  "held (put_caster m k c) = held m"
  by (simp_all add: put_caster_def split: option.splits)

lemma length_freed [simp]: "length (freed m SrcT DestT) = length (casters m)"
  by (simp add: freed_def split: option.splits)

lemma declare_casters:
  "casters (ValueCaster_declare m SrcT DestT) = freed m SrcT DestT @ [Some (value_caster SrcT DestT)]"
  by (simp add: ValueCaster_declare_def split_beta get_caster_at get_frame add_caster_def
      new_def Let_def put_frame freed_def split: option.splits)

lemma declare_caster_at:
  "caster_at (ValueCaster_declare m SrcT DestT) k =
     (if k = SrcT
      then Some ((table_of m SrcT)\<lparr>m_casts := (m_casts (table_of m SrcT))(DestT \<mapsto> length (casters m))\<rparr>)
      else caster_at m k)"
  by (simp add: ValueCaster_declare_def split_beta get_caster_at get_frame add_caster_def
      new_def Let_def put_caster_at split: option.splits)

lemma declare_held: "held (ValueCaster_declare m SrcT DestT) = held m"
  by (simp add: ValueCaster_declare_def split_beta get_caster_at get_frame add_caster_def
      new_def Let_def put_frame split: option.splits)

lemma declare_lookup_self:
  "\<exists>c. caster_at (ValueCaster_declare m SrcT DestT) SrcT = Some c \<and>
       m_casts c DestT = Some (length (casters m)) \<and>
       lookup (casters (ValueCaster_declare m SrcT DestT)) (length (casters m)) =
         Some (value_caster SrcT DestT)"
  by (simp add: declare_caster_at declare_casters lookup_append_new)


lemma registry_inv_initial: "registry_inv initial_memory"
  by (simp add: registry_inv_def casters_inv_def tables_inv_def initial_memory_def caster_at_def
      lookup_def)

lemma table_of_casts:
  "m_casts (table_of m S) D = Some a \<longleftrightarrow> (\<exists>c. caster_at m S = Some c \<and> m_casts c D = Some a)"
  by (simp add: table_of_def ValueCaster_ctor_def split: option.splits)

lemma table_of_src: "tables_inv m \<Longrightarrow> m_src_type (table_of m k) = k"
  by (simp add: tables_inv_def table_of_def ValueCaster_ctor_def split: option.splits)

lemma tables_inv_declare:
  "tables_inv m \<Longrightarrow> tables_inv (ValueCaster_declare m SrcT DestT)"
  unfolding tables_inv_def [of "ValueCaster_declare m SrcT DestT"]
  by (auto simp: declare_caster_at table_of_src) (simp add: tables_inv_def)

lemma casters_inv_declare:
  assumes "casters_inv m"
  shows "casters_inv (ValueCaster_declare m SrcT DestT)"
  unfolding casters_inv_def
proof (intro allI)
  fix a S D
  let ?m' = "ValueCaster_declare m SrcT DestT"
  let ?n = "length (casters m)"
  have inv: "\<And>a S D. lookup (casters m) a = Some (value_caster S D) \<longleftrightarrow>
      m_casts (table_of m S) D = Some a"
    using assms by (simp add: casters_inv_def table_of_casts)
  have rhs: "(\<exists>c. caster_at ?m' S = Some c \<and> m_casts c D = Some a) \<longleftrightarrow>
      (if S = SrcT \<and> D = DestT then a = ?n else m_casts (table_of m S) D = Some a)"
    by (auto simp: declare_caster_at table_of_casts)
  have lhs: "lookup (casters ?m') a = Some (value_caster S D) \<longleftrightarrow>
      (if a = ?n then S = SrcT \<and> D = DestT
       else if m_casts (table_of m SrcT) DestT = Some a then False
       else lookup (casters m) a = Some (value_caster S D))"
    by (auto simp: declare_casters lookup_append_new freed_def lookup_delete split: option.splits)
  show "lookup (casters ?m') a = Some (value_caster S D) \<longleftrightarrow>
      (\<exists>c. caster_at ?m' S = Some c \<and> m_casts c D = Some a)"
  proof (cases "a = ?n")
    case True
    have "m_casts (table_of m S) D \<noteq> Some ?n"
      using inv [of ?n S D] by (auto dest: lookup_Some_less)
    with True show ?thesis unfolding lhs rhs by auto
  next
    case False
    show ?thesis
    proof (cases "m_casts (table_of m SrcT) DestT = Some a")
      case True
      then have "lookup (casters m) a = Some (value_caster SrcT DestT)" by (simp add: inv)
      then have "m_casts (table_of m S) D = Some a \<longleftrightarrow> S = SrcT \<and> D = DestT"
        using inv [of a S D] True by auto
      with True False show ?thesis unfolding lhs rhs by auto
    next
      case nt: False
      with False show ?thesis unfolding lhs rhs using inv [of a S D] by auto
    qed
  qed
qed

lemma registry_inv_declare:
  "registry_inv m \<Longrightarrow> registry_inv (ValueCaster_declare m SrcT DestT)"
  by (simp add: registry_inv_def casters_inv_declare tables_inv_declare)

lemma declare_all_append:
  "declare_all m (xs @ ys) = declare_all (declare_all m xs) ys"
  by (induction xs arbitrary: m) auto

lemma declare_all_length:
  "length (casters (declare_all m ds)) = length (casters m) + length ds"
  by (induction ds arbitrary: m) (auto simp: declare_casters)

lemma registry_inv_declare_all:
  "registry_inv m \<Longrightarrow> registry_inv (declare_all m ds)"
  by (induction ds arbitrary: m) (auto simp: registry_inv_declare)

lemma declare_other_entry:
  "(S, D) \<noteq> (SrcT, DestT) \<Longrightarrow>
   m_casts (table_of (ValueCaster_declare m SrcT DestT) S) D = m_casts (table_of m S) D"
  by (auto simp: table_of_def declare_caster_at split: option.splits)

lemma declare_all_keeps:
  "(S, D) \<notin> set ds \<Longrightarrow> m_casts (table_of (declare_all m ds) S) D = m_casts (table_of m S) D"
proof (induction ds arbitrary: m)
  case Nil
  show ?case by simp
next
  case (Cons d ds)
  obtain SrcT DestT where d: "d = (SrcT, DestT)" by (cases d)
  with Cons.prems have ne: "(S, D) \<noteq> (SrcT, DestT)" and notin: "(S, D) \<notin> set ds" by auto
  show ?case using Cons.IH [OF notin] declare_other_entry [OF ne] by (simp add: d)
qed

lemma make_value_eq:
  "make_value m T x =
     (fst (ValueCaster_get (m\<lparr>held := held m @ [Some x]\<rparr>) T),
      \<lparr>m_value_ptr = length (held m), m_ptr_is_owned = True, m_type_hash = T,
       m_caster = Some T, m_deallocator = Some T\<rparr>)"
  by (simp add: make_value_def set_type_def new_def Value_ctor_def split_beta get_frame)

lemma casters_inv_get: "casters_inv m \<Longrightarrow> casters_inv (fst (ValueCaster_get m T))"
  by (auto simp: casters_inv_def get_frame get_caster_at table_of_def ValueCaster_ctor_def
      split: option.splits)

lemma tables_inv_get: "tables_inv m \<Longrightarrow> tables_inv (fst (ValueCaster_get m T))"
  unfolding tables_inv_def [of "fst (ValueCaster_get m T)"]
  by (auto simp: get_caster_at table_of_src)  (simp add: tables_inv_def)

lemma registry_inv_held: "registry_inv (m\<lparr>held := hs\<rparr>) = registry_inv m"
  by (simp add: registry_inv_def casters_inv_def tables_inv_def)

lemma registry_inv_get: "registry_inv m \<Longrightarrow> registry_inv (fst (ValueCaster_get m T))"
  by (simp add: registry_inv_def casters_inv_get tables_inv_get)

lemma registry_inv_make_value:
  "registry_inv m \<Longrightarrow> registry_inv (fst (make_value m T x))"
  unfolding make_value_eq fst_conv by (rule registry_inv_get) (simp add: registry_inv_held)

lemma make_value_props:
  assumes "make_value m T x = (m', v')"
  shows "m_ptr_is_owned v'" "Value_is v' T" "m_value_ptr v' = length (held m)"
    "held m' = held m @ [Some x]" "casters m' = casters m" "valid_value m' v'"
    "caster_at m' k = (if k = T then Some (table_of m T) else caster_at m k)"
  using assms
  by (auto simp: make_value_eq Value_is_def get_frame valid_value_def get_caster_at
      lookup_append_new table_of_def)

lemma make_reference_props:
  assumes "make_reference m T ptr = (m', v')"
  shows "is_reference v'" "Value_is v' T" "m_value_ptr v' = ptr"
    "held m' = held m" "casters m' = casters m"
  using assms
  by (auto simp: make_reference_def set_type_def Value_ctor_def split_beta get_frame
      is_reference_def Value_is_def)

lemmas eval_defs = ValueCaster_declare_def ValueCaster_get_def add_caster_def put_caster_def
  caster_at_def new_def delete_def lookup_def initial_memory_def ValueCaster_ctor_def Let_def

lemmas eval_defs2 = eval_defs make_value_def set_type_def Value_ctor_def Value_is_def
  table_of_def example_memory_def example_value_def

lemma ex_inv: "registry_inv example_memory"
  unfolding example_memory_def
  by (intro registry_inv_make_value registry_inv_declare_all registry_inv_initial)

text \<open>
  C7. After a sequence of declarations that declares the pair \<open>(S, D)\<close> and declares
  it for the last time at position \<open>length ds1\<close>, the table of \<open>S\<close> maps \<open>D\<close> to the
  caster object created by that last declaration, and this is the only live caster
  object for the pair: earlier ones have been replaced.
\<close>

theorem declare_replaces_caster:
  assumes "registry_inv m" "(S, D) \<notin> set ds2"
  shows "\<exists>c. caster_at (declare_all m (ds1 @ (S, D) # ds2)) S = Some c \<and>
             m_casts c D = Some (length (casters m) + length ds1) \<and>
             (\<forall>a. lookup (casters (declare_all m (ds1 @ (S, D) # ds2))) a = Some (value_caster S D)
                    \<longleftrightarrow> a = length (casters m) + length ds1)"
proof -
  let ?m1 = "declare_all m ds1"
  let ?m2 = "ValueCaster_declare ?m1 S D"
  let ?m3 = "declare_all m (ds1 @ (S, D) # ds2)"
  let ?n = "length (casters m) + length ds1"
  have m3: "?m3 = declare_all ?m2 ds2" by (simp add: declare_all_append)
  have "m_casts (table_of ?m2 S) D = Some (length (casters ?m1))"
    by (simp add: table_of_def declare_caster_at)
  then have "m_casts (table_of ?m3 S) D = Some ?n"
    using assms(2) by (simp add: m3 declare_all_keeps declare_all_length)
  then have e: "\<exists>c. caster_at ?m3 S = Some c \<and> m_casts c D = Some ?n"
    by (simp add: table_of_casts)
  have inv: "registry_inv ?m3" using assms(1) by (rule registry_inv_declare_all)
  have "\<And>a. lookup (casters ?m3) a = Some (value_caster S D) \<longleftrightarrow> a = ?n"
    using e inv unfolding registry_inv_def casters_inv_def by auto
  with e show ?thesis by blast
qed

theorem declare_replaces_caster_witness:
  "registry_inv (initial_memory :: nat memory) \<and> (1, 2) \<notin> set [(1, 3 :: nat)] \<and>
   (\<exists>c. caster_at (declare_all (initial_memory :: nat memory) [(1, 2), (1, 2), (1, 3)]) 1 = Some c \<and>
        m_casts c 2 = Some 1 \<and>
        (\<forall>a. lookup (casters (declare_all (initial_memory :: nat memory) [(1, 2), (1, 2), (1, 3)])) a
                 = Some (value_caster 1 2) \<longleftrightarrow> a = 1))"
proof -
  have i: "registry_inv (initial_memory :: nat memory)"
    by (simp add: registry_inv_def casters_inv_def tables_inv_def initial_memory_def caster_at_def
        lookup_def)
  have n: "((1::nat), (2::nat)) \<notin> set [(1, 3)]" by simp
  have l: "length (casters (initial_memory :: nat memory)) = 0" by (simp add: initial_memory_def)
  from declare_replaces_caster [OF i n, of "[(1, 2)]"] i l show ?thesis by simp
qed

text \<open>
  C3. For a value \<open>v\<close> as the code builds it, with live storage holding \<open>x\<close>:
  if \<open>v\<close> holds type \<open>T\<close>, \<open>as<T>()\<close> returns a new owning value made from a copy
  of \<open>x\<close>; otherwise, if a caster from the held type to \<open>T\<close> is registered, it returns
  a new owning value made from the converted \<open>x\<close>, and if none is registered it
  fails with the cast error of the two types. A value that \<open>make_value\<close> returns owns
  new storage, holds type \<open>T\<close>, and leaves the storage of \<open>v\<close> as it was.
\<close>

theorem as_copies_or_casts:
  assumes "registry_inv m" "valid_value m v" "lookup (held m) (m_value_ptr v) = Some x"
  shows
    "(Value_is v T \<longrightarrow> Value_as conv m v T = Inr (make_value m T x)) \<and>
     (\<not> Value_is v T \<longrightarrow>
        (case m_casts (table_of m (m_type_hash v)) T of
           Some a \<Rightarrow> Value_as conv m v T = Inr (make_value m T (conv (m_type_hash v) T x))
         | None \<Rightarrow> Value_as conv m v T = Inl (cast_error (m_type_hash v) T))) \<and>
     (\<forall>y m' v'. make_value m T y = (m', v') \<longrightarrow>
        m_ptr_is_owned v' \<and> Value_is v' T \<and> m_value_ptr v' \<noteq> m_value_ptr v \<and>
        lookup (held m') (m_value_ptr v') = Some y \<and>
        lookup (held m') (m_value_ptr v) = Some x)"
proof (intro conjI impI allI)
  assume "Value_is v T"
  with assms(3) show "Value_as conv m v T = Inr (make_value m T x)"
    by (simp add: Value_as_def)
next
  assume n: "\<not> Value_is v T"
  let ?S = "m_type_hash v"
  from assms(2) obtain tbl where k: "m_caster v = Some ?S" and tbl: "caster_at m ?S = Some tbl"
    by (auto simp: valid_value_def)
  from tbl have t: "table_of m ?S = tbl" by (simp add: table_of_def)
  from assms(1) tbl have src: "m_src_type tbl = ?S"
    by (simp add: registry_inv_def tables_inv_def)
  show "case m_casts (table_of m ?S) T of
           Some a \<Rightarrow> Value_as conv m v T = Inr (make_value m T (conv ?S T x))
         | None \<Rightarrow> Value_as conv m v T = Inl (cast_error ?S T)"
  proof (cases "m_casts tbl T")
    case None
    with n k tbl src show ?thesis by (simp add: t Value_as_def cast_value_def)
  next
    case (Some a)
    with assms(1) tbl have "lookup (casters m) a = Some (value_caster ?S T)"
      by (auto simp: registry_inv_def casters_inv_def)
    with n k tbl Some assms(3) show ?thesis
      by (simp add: t Value_as_def cast_value_def Value_get_const_def Value_is_def)
  qed
next
  fix y m' v'
  assume mv: "make_value m T y = (m', v')"
  from assms(3) have lt: "m_value_ptr v < length (held m)" by (rule lookup_Some_less)
  note p = make_value_props [OF mv]
  show "m_ptr_is_owned v'" by (rule p(1))
  show "Value_is v' T" by (rule p(2))
  show "m_value_ptr v' \<noteq> m_value_ptr v" using lt p(3) by simp
  show "lookup (held m') (m_value_ptr v') = Some y" by (simp add: p(3,4) lookup_append_new)
  show "lookup (held m') (m_value_ptr v) = Some x" using lt assms(3)
    by (simp add: p(4) lookup_append_new)
qed

theorem as_copies_or_casts_witness:
  "registry_inv example_memory \<and> valid_value example_memory example_value \<and>
   lookup (held example_memory) (m_value_ptr example_value) = Some 42 \<and>
   Value_as (\<lambda>S D x. x + D) example_memory example_value 1 = Inr (make_value example_memory 1 42) \<and>
   Value_as (\<lambda>S D x. x + D) example_memory example_value 2 = Inr (make_value example_memory 2 44) \<and>
   Value_as (\<lambda>S D x. x + D) example_memory example_value 3 = Inl (cast_error 1 3)"
proof -
  have v: "valid_value example_memory example_value"
    by (simp add: valid_value_def eval_defs2)
  have l: "lookup (held example_memory) (m_value_ptr example_value) = Some 42"
    by (simp add: eval_defs2)
  have h: "m_type_hash example_value = 1" by (simp add: eval_defs2)
  have t2: "m_casts (table_of example_memory 1) 2 = Some 0" by (simp add: eval_defs2)
  have t3: "m_casts (table_of example_memory 1) 3 = None" by (simp add: eval_defs2)
  note c = as_copies_or_casts [OF ex_inv v l, where conv = "\<lambda>S D x. x + D"]
  have a1: "Value_as (\<lambda>S D x. x + D) example_memory example_value 1 =
      Inr (make_value example_memory 1 42)"
    using c [of 1, THEN conjunct1] h by (simp add: Value_is_def)
  have a2: "Value_as (\<lambda>S D x. x + D) example_memory example_value 2 =
      Inr (make_value example_memory 2 44)"
    using c [of 2, THEN conjunct2, THEN conjunct1] h t2 by (simp add: Value_is_def)
  have a3: "Value_as (\<lambda>S D x. x + D) example_memory example_value 3 = Inl (cast_error 1 3)"
    using c [of 3, THEN conjunct2, THEN conjunct1] h t3 by (simp add: Value_is_def)
  from ex_inv v l a1 a2 a3 show ?thesis by blast
qed

lemma cast_eq:
  "ValueCaster_cast conv m SrcT DestT v =
     value_caster_cast conv (fst (ValueCaster_get (ValueCaster_declare m SrcT DestT) SrcT))
       (value_caster SrcT DestT) v"
  by (simp add: ValueCaster_cast_def Let_def split_beta get_frame get_caster_at table_of_def
      declare_caster_at cast_value_def declare_casters lookup_append_new)

text \<open>
  C10. The overload \<open>ValueCaster::cast<SrcT, DestT>(value)\<close> declares the caster of the
  pair first and then runs it: it never fails with a cast error, and on a value of
  type \<open>SrcT\<close> with live storage it returns the new value made from the converted
  content. The overload that looks the source type up raises a cast error when
  the table or the entry of the destination is missing.
\<close>

theorem static_cast_overload_declares_first:
  "ValueCaster_cast conv m SrcT DestT v =
     value_caster_cast conv (fst (ValueCaster_get (ValueCaster_declare m SrcT DestT) SrcT))
       (value_caster SrcT DestT) v \<and>
   (\<forall>s d. ValueCaster_cast conv m SrcT DestT v \<noteq> Inl (cast_error s d)) \<and>
   (\<forall>x. Value_is v SrcT \<and> lookup (held m) (m_value_ptr v) = Some x \<longrightarrow>
      ValueCaster_cast conv m SrcT DestT v =
        Inr (make_value (fst (ValueCaster_get (ValueCaster_declare m SrcT DestT) SrcT)) DestT
               (conv SrcT DestT x))) \<and>
   (\<forall>lk. s_caster_lookup m = Some lk \<and>
      (case lk SrcT of None \<Rightarrow> True | Some tbl \<Rightarrow> m_casts tbl DestT = None) \<longrightarrow>
      (\<exists>s. ValueCaster_cast_by_type conv m SrcT DestT v = Inl (cast_error s DestT)))"
  by (auto simp: cast_eq Value_get_const_def get_frame declare_held
      ValueCaster_cast_by_type_def cast_value_def split: option.splits sum.splits)

theorem static_cast_overload_declares_first_witness:
  "ValueCaster_cast (\<lambda>S D x. x + D) example_memory 1 3 example_value =
     Inr (make_value (fst (ValueCaster_get (ValueCaster_declare example_memory 1 3) 1)) 3 45) \<and>
   (\<exists>s. ValueCaster_cast_by_type (\<lambda>S D x. x + D) example_memory 1 3 example_value =
     Inl (cast_error s 3))"
proof -
  have l: "lookup (held example_memory) (m_value_ptr example_value) = Some 42"
    by (simp add: eval_defs2)
  have h: "Value_is example_value 1" by (simp add: eval_defs2)
  obtain lk where lk: "s_caster_lookup example_memory = Some lk" and
     c: "(case lk 1 of None \<Rightarrow> True | Some tbl \<Rightarrow> m_casts tbl 3 = None)"
    by (simp add: eval_defs2)
  note t = static_cast_overload_declares_first [of "\<lambda>S D x. x + D" example_memory 1 3 example_value]
  have a1: "ValueCaster_cast (\<lambda>S D x. x + D) example_memory 1 3 example_value =
     Inr (make_value (fst (ValueCaster_get (ValueCaster_declare example_memory 1 3) 1)) 3 45)"
    using t [THEN conjunct2, THEN conjunct2, THEN conjunct1] h l by simp
  have a2: "\<exists>s. ValueCaster_cast_by_type (\<lambda>S D x. x + D) example_memory 1 3 example_value =
     Inl (cast_error s 3)"
    using t [THEN conjunct2, THEN conjunct2, THEN conjunct2] lk c by blast
  from a1 a2 show ?thesis by blast
qed

text \<open>
  C4. On an owning value that holds type \<open>T\<close>, \<open>release<T>()\<close> returns the pointer to
  the held storage and leaves the value a reference, and a second \<open>release<T>()\<close>
  fails. \<open>release<T>()\<close> fails, and changes nothing, on a value that is a reference
  or holds another type.
\<close>

theorem release_gives_up_ownership_once:
  "(m_ptr_is_owned v \<and> Value_is v T \<longrightarrow>
      Value_release v T = (Inr (m_value_ptr v), v\<lparr>m_ptr_is_owned := False\<rparr>) \<and>
      is_reference (snd (Value_release v T)) \<and>
      Value_release (snd (Value_release v T)) T =
        (Inl (runtime_error ''Cannot release ownership from a reference Value.''),
         snd (Value_release v T))) \<and>
   (is_reference v \<or> \<not> Value_is v T \<longrightarrow> (\<exists>e. Value_release v T = (Inl e, v)))"
  by (auto simp: Value_release_def is_reference_def Value_is_def)

theorem release_gives_up_ownership_once_witness:
  "m_ptr_is_owned example_value \<and> Value_is example_value 1 \<and> \<not> Value_is example_value 2 \<and>
   Value_release example_value 1 =
     (Inr (m_value_ptr example_value), example_value\<lparr>m_ptr_is_owned := False\<rparr>) \<and>
   is_reference (snd (Value_release example_value 1)) \<and>
   Value_release (snd (Value_release example_value 1)) 1 =
     (Inl (runtime_error ''Cannot release ownership from a reference Value.''),
      snd (Value_release example_value 1)) \<and>
   (\<exists>e. Value_release example_value 2 = (Inl e, example_value))"
proof -
  have o: "m_ptr_is_owned example_value" "Value_is example_value 1" "\<not> Value_is example_value 2"
    by (simp_all add: eval_defs2)
  from release_gives_up_ownership_once [of example_value 1] release_gives_up_ownership_once [of example_value 2] o show ?thesis by blast
qed

text \<open>
  C9. \<open>get<T>()\<close> leaves the value as it was, so an owning value stays owning and a
  reference stays a reference, whether the call fails or not; it fails exactly when
  the held type is not \<open>T\<close>, and otherwise returns the reference to the held storage.
\<close>

theorem get_keeps_ownership:
  "snd (Value_get v T) = v \<and>
   is_reference (snd (Value_get v T)) = is_reference v \<and>
   (isl (fst (Value_get v T)) \<longleftrightarrow> m_type_hash v \<noteq> T) \<and>
   (isl (Value_get_const v T) \<longleftrightarrow> m_type_hash v \<noteq> T) \<and>
   (if m_type_hash v = T
    then fst (Value_get v T) = Inr (m_value_ptr v)
    else fst (Value_get v T) = Inl (runtime_error ''Invalid call to Value::get<T>.''))"
  by (simp add: Value_get_def Value_get_const_def Value_is_def)

theorem get_keeps_ownership_witness:
  "snd (Value_get example_value 1) = example_value \<and>
   fst (Value_get example_value 1) = Inr 0 \<and>
   snd (Value_get example_value 2) = example_value \<and>
   fst (Value_get example_value 2) = Inl (runtime_error ''Invalid call to Value::get<T>.'')"
proof -
  have o: "m_type_hash example_value = 1" "m_value_ptr example_value = 0"
    by (simp_all add: eval_defs2)
  from get_keeps_ownership [of example_value 1] get_keeps_ownership [of example_value 2] o show ?thesis by simp
qed

section \<open>Properties on the wire\<close>

lemma write_to_loop_drop:
  "it \<le> length ps \<Longrightarrow> write_to_loop w ps it s = write_in_order w (drop it ps) s"
proof (induction w ps it s rule: write_to_loop.induct)
  case (1 w ps it s)
  note unfold = write_to_loop.simps [of w ps it s]
  show ?case
  proof (cases "it < length ps")
    case True
    then have d: "drop it ps = ps ! it # drop (it + 1) ps" by (simp add: Cons_nth_drop_Suc)
    show ?thesis
    proof (cases "w (ps ! it) s")
      case (Inl e)
      with True show ?thesis unfolding unfold d by simp
    next
      case (Inr s')
      with True have "write_to_loop w ps (it + 1) s' = write_in_order w (drop (it + 1) ps) s'"
        by (intro "1.IH") auto
      with True Inr show ?thesis unfolding unfold d by simp
    qed
  next
    case False
    with "1.prems" show ?thesis unfolding unfold by simp
  qed
qed

lemma read_from_loop_drop:
  "it \<le> length ps \<Longrightarrow>
   read_from_loop r ps it s =
     (case read_in_order r (drop it ps) s of
        Inl e \<Rightarrow> Inl e
      | Inr (ps', s') \<Rightarrow> Inr (take it ps @ ps', s'))"
proof (induction r ps it s rule: read_from_loop.induct)
  case (1 r ps it s)
  note unfold = read_from_loop.simps [of r ps it s]
  show ?case
  proof (cases "it < length ps")
    case True
    then have d: "drop it ps = ps ! it # drop (it + 1) ps" by (simp add: Cons_nth_drop_Suc)
    show ?thesis
    proof (cases "r (ps ! it) s")
      case (Inl e)
      with True show ?thesis unfolding unfold d by simp
    next
      case (Inr q)
      obtain p' s' where q: "q = (p', s')" by (cases q)
      from True have len: "it + 1 \<le> length (ps[it := p'])" by simp
      have ih: "read_from_loop r (ps[it := p']) (it + 1) s' =
         (case read_in_order r (drop (it + 1) (ps[it := p'])) s' of
            Inl e \<Rightarrow> Inl e
          | Inr (ps', s'') \<Rightarrow> Inr (take (it + 1) (ps[it := p']) @ ps', s''))"
        using Inr q by (intro "1.IH" [OF True _ _ len, of q]) simp_all
      have t: "take (it + 1) (ps[it := p']) = take it ps @ [p']"
        using True by (simp add: take_Suc_conv_app_nth)
      have dr: "drop (it + 1) (ps[it := p']) = drop (it + 1) ps" by simp
      have l: "read_from_loop r ps it s = read_from_loop r (ps[it := p']) (it + 1) s'"
        unfolding unfold using True Inr q by simp
      have rr: "read_in_order r (drop it ps) s =
         (case read_in_order r (drop (it + 1) ps) s' of
            Inl e \<Rightarrow> Inl e
          | Inr (ps', s'') \<Rightarrow> Inr (p' # ps', s''))"
        unfolding d using Inr q by simp
      show ?thesis unfolding l ih t dr rr
        by (cases "read_in_order r (drop (it + 1) ps) s'") auto
    qed
  next
    case False
    with "1.prems" show ?thesis unfolding unfold by simp
  qed
qed

lemma write_log: "write_in_order log_write ps visited = Inr (visited @ ps)"
  by (induction ps arbitrary: visited) (simp_all add: log_write_def)

lemma read_log: "read_in_order log_read ps visited = Inr (ps, visited @ ps)"
  by (induction ps arbitrary: visited) (simp_all add: log_read_def)

text \<open>
  C5. \<open>write_to\<close> applies the properties' own writers to the declared properties in
  declared order, and \<open>read_from\<close> applies their readers in the same order; the loops
  themselves put nothing on the stream and take nothing from it. A writer and a
  reader that record the properties they are called on both record the declared list.
\<close>

theorem class_properties_in_declared_order:
  "IClassType_write_to gofv w s v = write_in_order w (get_properties (gofv v)) s \<and>
   IClassType_read_from gofv r s v =
     (case read_in_order r (get_properties (gofv v)) s of
        Inl e \<Rightarrow> Inl e
      | Inr (ps', s') \<Rightarrow> Inr ((gofv v)\<lparr>get_properties := ps'\<rparr>, s')) \<and>
   IClassType_write_to gofv log_write [] v = Inr (get_properties (gofv v)) \<and>
   IClassType_read_from gofv log_read [] v = Inr (gofv v, get_properties (gofv v))"
proof -
  have wr: "IClassType_write_to gofv w s v = write_in_order w (get_properties (gofv v)) s" for w s
    unfolding IClassType_write_to_def Let_def
    using write_to_loop_drop [of 0 "get_properties (gofv v)" w s] by simp
  have rd: "IClassType_read_from gofv r s v =
     (case read_in_order r (get_properties (gofv v)) s of
        Inl e \<Rightarrow> Inl e
      | Inr (ps', s') \<Rightarrow> Inr ((gofv v)\<lparr>get_properties := ps'\<rparr>, s'))" for r s
  proof -
    have "read_from_loop r (get_properties (gofv v)) 0 s =
       (case read_in_order r (drop 0 (get_properties (gofv v))) s of
          Inl e \<Rightarrow> Inl e
        | Inr (ps', s') \<Rightarrow> Inr (take 0 (get_properties (gofv v)) @ ps', s'))"
      by (rule read_from_loop_drop) simp
    then show ?thesis
      unfolding IClassType_read_from_def Let_def
      by (cases "read_in_order r (get_properties (gofv v)) s") auto
  qed
  show ?thesis unfolding wr rd by (simp add: write_log read_log)
qed

theorem class_properties_in_declared_order_witness:
  "IClassType_write_to (\<lambda>v. v) log_write [] \<lparr>get_properties = [''a'', ''b'', ''c'']\<rparr>
     = Inr [''a'', ''b'', ''c''] \<and>
   IClassType_read_from (\<lambda>v. v) log_read [] \<lparr>get_properties = [''a'', ''b'', ''c'']\<rparr>
     = Inr (\<lparr>get_properties = [''a'', ''b'', ''c'']\<rparr>, [''a'', ''b'', ''c''])"
  using class_properties_in_declared_order [of "\<lambda>v. v" log_write "[]" "\<lparr>get_properties = [''a'', ''b'', ''c'']\<rparr>" log_read,
      THEN conjunct2, THEN conjunct2]
  by simp

lemma bits_contract:
  "stream_contract (bits_write :: bool list \<Rightarrow> 'a::len word \<Rightarrow> nat \<Rightarrow> bool list) bits_read bits_rewind LENGTH('a)"
  by (simp add: stream_contract_def bits_write_def bits_read_def bits_rewind_def
      horner_sum_bit_eq_take_bit)

text \<open>
  C6. The writer of an integral primitive type passes the width \<open>bitsizeof\<close> of the
  type to the stream, and the reader asks for the same width; so, when the stream
  meets its contract at that width, reading where a value was written returns it.
\<close>

theorem primitive_codec_round_trip:
  "PrimitiveTypeWriter_write_to wr b s v = wr s v b \<and>
   PrimitiveTypeReader_read_from rd b s = rd s b \<and>
   (stream_contract wr rd rw b \<longrightarrow>
      fst (PrimitiveTypeReader_read_from rd b (rw s (PrimitiveTypeWriter_write_to wr b s v))) = v)"
  by (simp add: PrimitiveTypeWriter_write_to_def PrimitiveTypeReader_read_from_def
      stream_contract_def)

theorem primitive_codec_round_trip_witness:
  "stream_contract (bits_write :: bool list \<Rightarrow> 8 word \<Rightarrow> nat \<Rightarrow> bool list) bits_read bits_rewind 8 \<and>
   fst (PrimitiveTypeReader_read_from bits_read 8
          (bits_rewind [True, False]
             (PrimitiveTypeWriter_write_to bits_write 8 [True, False] (200 :: 8 word)))) = (200 :: 8 word)"
proof -
  have c: "stream_contract (bits_write :: bool list \<Rightarrow> 8 word \<Rightarrow> nat \<Rightarrow> bool list) bits_read bits_rewind 8"
    using bits_contract [where 'a = 8] by simp
  from primitive_codec_round_trip [of bits_write 8 "[True, False]" "200 :: 8 word" bits_read bits_rewind] c
  show ?thesis by blast
qed


end
